theory Spec2Isabelle
  imports Main
begin

section \<open>Strings\<close>

text \<open>
  A Go string is a sequence of bytes; it is modelled as a \<open>string\<close> (a list of 8-bit
  characters). \<open>strings.HasPrefix(s, p)\<close> is \<open>len(s) >= len(p) && s[:len(p)] == p\<close>.
  Arguments keep the order of the Go calls.
\<close>

definition HasPrefix :: "string \<Rightarrow> string \<Rightarrow> bool" where
  "HasPrefix s p = (length p \<le> length s \<and> take (length p) s = p)"

text \<open>
  \<open>strings.IndexRune(s, r)\<close> for a rune below 0x80 is \<open>strings.IndexByte(s, byte(r))\<close>: the
  index of the first occurrence, or \<open>-1\<close>. The only rune searched for is \<open>=\<close>, and the line
  scanner searches for the newline byte in the same way.
\<close>

fun IndexByte :: "string \<Rightarrow> char \<Rightarrow> int" where
  "IndexByte [] c = - 1"
| "IndexByte (x # xs) c =
     (if x = c then 0 else (let r = IndexByte xs c in if r < 0 then - 1 else r + 1))"

section \<open>Recipient flags\<close>

text \<open>\<open>isRecipientFlag\<close>: a switch over the four spellings, false otherwise.\<close>

definition isRecipientFlag :: "string \<Rightarrow> bool" where
  "isRecipientFlag s =
     (if s = ''-r'' \<or> s = ''--r'' \<or> s = ''-recipient'' \<or> s = ''--recipient'' then True
      else False)"

section \<open>The handle pattern\<close>

text \<open>
  \<open>userNameRe\<close> is the compiled pattern \<^verbatim>\<open>^[a-zA-Z][a-zA-Z0-9_-]+$\<close>. The pattern is kept as
  a syntax tree and run by a matcher on derivatives, so that validity of a handle is what the
  pattern says and not a hand-written test. A character class is a list of inclusive ranges
  of bytes. Go's \<open>$\<close> (without the \<open>m\<close> flag) matches at the end of the text only, and the
  pattern starts with \<open>^\<close>, so \<open>MatchString\<close> ("contains a match") is a match of the whole
  string: the two anchors are the whole-string reading of \<open>matches\<close> below. The classes hold
  ASCII only, so a byte \<open>\<ge> 0x80\<close> (part of a longer rune, or an invalid encoding read as
  U+FFFD) is in no class, as in Go.
\<close>

datatype regexp =
    NoMatch
  | EmptyMatch
  | CharClass "(nat \<times> nat) list"
  | Concat regexp regexp
  | Alternate regexp regexp
  | Star regexp
  | Plus regexp

definition in_class :: "(nat \<times> nat) list \<Rightarrow> char \<Rightarrow> bool" where
  "in_class rs c = list_ex (\<lambda>(lo, hi). lo \<le> of_char c \<and> of_char c \<le> hi) rs"

primrec nullable :: "regexp \<Rightarrow> bool" where
  "nullable NoMatch = False"
| "nullable EmptyMatch = True"
| "nullable (CharClass rs) = False"
| "nullable (Concat r s) = (nullable r \<and> nullable s)"
| "nullable (Alternate r s) = (nullable r \<or> nullable s)"
| "nullable (Star r) = True"
| "nullable (Plus r) = nullable r"

primrec deriv :: "char \<Rightarrow> regexp \<Rightarrow> regexp" where
  "deriv c NoMatch = NoMatch"
| "deriv c EmptyMatch = NoMatch"
| "deriv c (CharClass rs) = (if in_class rs c then EmptyMatch else NoMatch)"
| "deriv c (Concat r s) =
     (if nullable r then Alternate (Concat (deriv c r) s) (deriv c s)
      else Concat (deriv c r) s)"
| "deriv c (Alternate r s) = Alternate (deriv c r) (deriv c s)"
| "deriv c (Star r) = Concat (deriv c r) (Star r)"
| "deriv c (Plus r) = Concat (deriv c r) (Star r)"

primrec matches :: "regexp \<Rightarrow> string \<Rightarrow> bool" where
  "matches r [] = nullable r"
| "matches r (c # cs) = matches (deriv c r) cs"

text \<open>The ranges \<open>a-z\<close>, \<open>A-Z\<close>, \<open>0-9\<close>, \<open>_\<close> and \<open>-\<close> by their byte values.\<close>

definition userNameRe :: regexp where
  "userNameRe =
     Concat (CharClass [(97, 122), (65, 90)])
            (Plus (CharClass [(97, 122), (65, 90), (48, 57), (95, 95), (45, 45)]))"

definition MatchString :: "regexp \<Rightarrow> string \<Rightarrow> bool" where
  "MatchString re s = matches re s"

definition validGithubHandle :: "string \<Rightarrow> bool" where
  "validGithubHandle s = MatchString userNameRe s"

section \<open>Errors\<close>

text \<open>
  Go's \<open>error\<close> values, one constructor for each way the program builds one:
  \<open>errors.New(text)\<close>; the two sentinel values the program meets (\<open>os.ErrNotExist\<close>,
  \<open>bufio.ErrTooLong\<close>); the \<open>*os.PathError\<close> of a failed file operation (operation, path,
  cause); an error value of another package, known by its text (\<open>exec.LookPath\<close>,
  \<open>os.UserCacheDir\<close>, the HTTP transport, \<open>syscall.Exec\<close>); and the four \<open>fmt.Errorf\<close>
  calls of the program, by their format string.
\<close>

datatype error =
    errorString string
  | ErrNotExist
  | ErrTooLong
  | PathError string string string
  | ForeignError string
  | FetchingKeys string error
  | NoKeysFound string
  | UnexpectedResponseCode string
  | UnexpectedContentType string

text \<open>
  What the Go standard library computes and the program only calls is taken as a parameter:
  the hexadecimal SHA-1 digest \<open>fmt.Sprintf("%x", sha1.Sum([]byte(key)))\<close>,
  \<open>filepath.Join\<close> of two elements, and the quoting of the \<open>%q\<close> verb.
\<close>

record stdlib =
  sha1_hex :: "string \<Rightarrow> string"
  filepath_Join :: "string \<Rightarrow> string \<Rightarrow> string"
  quote :: "string \<Rightarrow> string"

text \<open>\<open>err.Error()\<close>: the message of an error, as the format strings build it.\<close>

primrec Error :: "stdlib \<Rightarrow> error \<Rightarrow> string" where
  "Error L (errorString s) = s"
| "Error L ErrNotExist = ''file does not exist''"
| "Error L ErrTooLong = ''bufio.Scanner: token too long''"
| "Error L (PathError opn path cause) = opn @ '' '' @ path @ '': '' @ cause"
| "Error L (ForeignError s) = s"
| "Error L (FetchingKeys userName err) =
     ''fetching keys for github user '' @ quote L userName @ '': '' @ Error L err"
| "Error L (NoKeysFound userName) = ''no keys found for github user '' @ quote L userName"
| "Error L (UnexpectedResponseCode status) = ''unexpected response code '' @ quote L status"
| "Error L (UnexpectedContentType ct) = ''unexpected content type '' @ quote L ct"

section \<open>Readers and the line scanner\<close>

text \<open>
  An \<open>io.Reader\<close> is the bytes it delivers and the error it ends with (\<open>None\<close> for
  \<open>io.EOF\<close>). \<open>bytes.NewReader\<close> never fails. \<open>io.LimitReader(r, n)\<close> reports \<open>io.EOF\<close> once
  \<open>n\<close> bytes are read, so the error of \<open>r\<close> is seen only when \<open>r\<close> ends before the limit.
\<close>

type_synonym reader = "string \<times> error option"

definition bytes_NewReader :: "string \<Rightarrow> reader" where
  "bytes_NewReader data = (data, None)"

definition io_LimitReader :: "reader \<Rightarrow> nat \<Rightarrow> reader" where
  "io_LimitReader r n = (if n \<le> length (fst r) then (take n (fst r), None) else r)"

text \<open>
  \<open>bufio.Scanner\<close> with its default split function \<open>bufio.ScanLines\<close> and its default
  buffer limit \<open>bufio.MaxScanTokenSize\<close>. \<open>ScanLines\<close> cuts at the first newline
  (\<open>bytes.IndexByte(data, '\n')\<close>), and \<open>dropCR\<close> removes one trailing carriage return;
  at the end of the input the rest, when not empty, is the last token. \<open>Scan\<close> gives up
  with \<open>ErrTooLong\<close> when its buffer of \<open>MaxScanTokenSize\<close> bytes is full and holds no
  newline, that is when a line has that many bytes or more before its newline (or before the
  end of the input). \<open>scan_tokens\<close> returns the tokens that the successive calls of \<open>Scan\<close>
  produce, and whether the scan ended on \<open>ErrTooLong\<close>.
\<close>

definition MaxScanTokenSize :: nat where
  "MaxScanTokenSize = 64 * 1024"

definition dropCR :: "string \<Rightarrow> string" where
  "dropCR data = (if data \<noteq> [] \<and> last data = CHR 0x0D then butlast data else data)"

function scan_tokens :: "string \<Rightarrow> string list \<times> bool" where
  "scan_tokens data =
     (if data = [] then ([], False)
      else let i = IndexByte data (CHR 0x0A) in
        if 0 \<le> i then
          (if MaxScanTokenSize \<le> nat i then ([], True)
           else (case scan_tokens (drop (nat i + 1) data) of
                   (ts, long) \<Rightarrow> (dropCR (take (nat i) data) # ts, long)))
        else if MaxScanTokenSize \<le> length data then ([], True)
        else ([dropCR data], False))"
  by pat_completeness auto
termination
  by (relation "measure length") auto

text \<open>
  The scanner over a reader: the tokens, and \<open>scanner.Err()\<close> after the last one
  (\<open>ErrTooLong\<close>, or the reader's own error; \<open>io.EOF\<close> is no error).
\<close>

definition Scanner :: "reader \<Rightarrow> string list \<times> error option" where
  "Scanner r =
     (case scan_tokens (fst r) of
        (ts, long) \<Rightarrow> (ts, if long then Some ErrTooLong else snd r))"

section \<open>Parsing keys\<close>

text \<open>
  The loop of \<open>parseReaderToKeys\<close> over the tokens still to come: \<open>scan_loop out toks\<close>
  returns \<open>out\<close> and \<open>True\<close> when the loop returned from inside (\<open>len(out) == 10\<close> with a
  token scanned), \<open>False\<close> when \<open>scanner.Scan()\<close> returned false.
\<close>

fun scan_loop :: "string list \<Rightarrow> string list \<Rightarrow> string list \<times> bool" where
  "scan_loop out [] = (out, False)"
| "scan_loop out (line # rest) =
     (if length out = 10 then (out, True)
      else scan_loop (if HasPrefix line ''ssh-'' then out @ [line] else out) rest)"

text \<open>
  \<open>parseReaderToKeys\<close> consumes its reader; \<open>parseReaderToKeys_rd\<close> returns, with the
  result, whether the reader was read to its end (the caller tees the bytes read into a
  buffer). The error of the scanner is looked at only after the loop ran to its end.
\<close>

definition parseReaderToKeys_rd :: "reader \<Rightarrow> (error + string list) \<times> bool" where
  "parseReaderToKeys_rd r =
     (case Scanner r of
        (toks, err) \<Rightarrow>
          (case scan_loop [] toks of
             (out, True) \<Rightarrow> (Inr out, False)
           | (out, False) \<Rightarrow>
               (case err of
                  Some e \<Rightarrow> (Inl e, e \<noteq> ErrTooLong)
                | None \<Rightarrow> (Inr out, True))))"

definition parseReaderToKeys :: "reader \<Rightarrow> error + string list" where
  "parseReaderToKeys r = fst (parseReaderToKeys_rd r)"

section \<open>The world outside the program\<close>

text \<open>
  The program reads the clock, the file system, the network and the process environment.
  They are one record, passed through every function that touches them and returned
  updated:
  \<^item> \<open>files\<close>: the regular files by path, each with its modification time (nanoseconds,
    unbounded) and content; \<open>os.Stat\<close> fails exactly on a path with no file;
  \<^item> \<open>denied\<close>: the paths the operating system refuses to create, read or write (reads
    and writes alike), so that every error branch of the cache can be taken;
  \<^item> \<open>clock\<close>: the reading of \<open>time.Now()\<close>, which is also the modification time a write gives;
  \<^item> \<open>http\<close>: the answer of the network to a GET of a URL, or the transport's error
    (the 10 second timeout is one of them);
  \<^item> \<open>tee_extent\<close>: how many bytes of a response body had been pulled through the
    \<open>io.TeeReader\<close> when parsing returned before the end of the body (the transport
    decides the size of each read);
  \<^item> \<open>lookPath\<close>, \<open>userCacheDir\<close>, \<open>environ\<close>, \<open>exec_error\<close>: \<open>exec.LookPath\<close>,
    \<open>os.UserCacheDir\<close>, \<open>os.Environ\<close>, and the error of \<open>syscall.Exec\<close> when it fails;
  \<^item> \<open>stderr\<close>: what was written to standard error;
  \<^item> \<open>trace\<close>: every call that left the program, in order.
\<close>

record file_entry =
  modTime :: int
  content :: string

record response =
  StatusCode :: nat
  Status :: string
  ContentType :: string
  Body :: reader

datatype event =
    EvLookPath string
  | EvUserCacheDir
  | EvStat string
  | EvReadFile string
  | EvMkdirAll string
  | EvWriteFile string string
  | EvHttpGet string string
  | EvExec string "string list" "string list"

record world =
  files :: "string \<Rightarrow> file_entry option"
  denied :: "string \<Rightarrow> bool"
  clock :: int
  http :: "string \<Rightarrow> error + response"
  tee_extent :: nat
  lookPath :: "string \<Rightarrow> error + string"
  userCacheDir :: "error + string"
  environ :: "string list"
  exec_error :: "error option"
  stderr :: string
  trace :: "event list"

definition emit :: "event \<Rightarrow> world \<Rightarrow> world" where
  "emit e w = w\<lparr>trace := trace w @ [e]\<rparr>"

definition Hour :: int where
  "Hour = 3600 * 1000000000"

definition os_Stat :: "string \<Rightarrow> world \<Rightarrow> (error + file_entry) \<times> world" where
  "os_Stat name w =
     (case files w name of
        None \<Rightarrow> (Inl (PathError ''stat'' name ''no such file or directory''), emit (EvStat name) w)
      | Some st \<Rightarrow> (Inr st, emit (EvStat name) w))"

definition ioutil_ReadFile :: "string \<Rightarrow> world \<Rightarrow> (error + string) \<times> world" where
  "ioutil_ReadFile name w =
     (case files w name of
        None \<Rightarrow> (Inl (PathError ''open'' name ''no such file or directory''), emit (EvReadFile name) w)
      | Some f \<Rightarrow>
          if denied w name
          then (Inl (PathError ''open'' name ''permission denied''), emit (EvReadFile name) w)
          else (Inr (content f), emit (EvReadFile name) w))"

definition os_MkdirAll :: "string \<Rightarrow> world \<Rightarrow> error option \<times> world" where
  "os_MkdirAll path w =
     (if denied w path
      then (Some (PathError ''mkdir'' path ''permission denied''), emit (EvMkdirAll path) w)
      else (None, emit (EvMkdirAll path) w))"

definition ioutil_WriteFile :: "string \<Rightarrow> string \<Rightarrow> world \<Rightarrow> error option \<times> world" where
  "ioutil_WriteFile name data w =
     (if denied w name
      then (Some (PathError ''open'' name ''permission denied''), emit (EvWriteFile name data) w)
      else (None, (emit (EvWriteFile name data) w)
                    \<lparr>files := (files w)(name \<mapsto> \<lparr>modTime = clock w, content = data\<rparr>)\<rparr>))"

definition http_Do :: "string \<Rightarrow> string \<Rightarrow> world \<Rightarrow> (error + response) \<times> world" where
  "http_Do url userAgent w = (http w url, emit (EvHttpGet url userAgent) w)"

definition exec_LookPath :: "string \<Rightarrow> world \<Rightarrow> (error + string) \<times> world" where
  "exec_LookPath file w = (lookPath w file, emit (EvLookPath file) w)"

definition os_UserCacheDir :: "world \<Rightarrow> (error + string) \<times> world" where
  "os_UserCacheDir w = (userCacheDir w, emit EvUserCacheDir w)"

section \<open>The disk cache\<close>

text \<open>
  \<open>cacheDir\<close> is a string, the directory; the empty string is the unset cache.
  \<open>st.ModTime().Add(time.Hour).Before(time.Now())\<close> is the strict comparison
  \<open>modTime + Hour < now\<close>.
\<close>

definition cacheDir_get :: "stdlib \<Rightarrow> string \<Rightarrow> string \<Rightarrow> world \<Rightarrow> (error + string) \<times> world" where
  "cacheDir_get L c key w =
     (if c = [] then (Inl ErrNotExist, w)
      else
        let filename = filepath_Join L c (sha1_hex L key) in
        case os_Stat filename w of
          (Inl err, w1) \<Rightarrow> (Inl err, w1)
        | (Inr st, w1) \<Rightarrow>
            if modTime st + Hour < clock w1 then (Inl ErrNotExist, w1)
            else ioutil_ReadFile filename w1)"

definition cacheDir_put :: "stdlib \<Rightarrow> string \<Rightarrow> string \<Rightarrow> string \<Rightarrow> world \<Rightarrow> error option \<times> world" where
  "cacheDir_put L c key data w =
     (if c = [] then (None, w)
      else
        let filename = sha1_hex L key in
        case os_MkdirAll c w of
          (Some err, w1) \<Rightarrow> (Some err, w1)
        | (None, w1) \<Rightarrow> ioutil_WriteFile (filepath_Join L c filename) data w1)"

section \<open>Resolving a handle\<close>

text \<open>
  \<open>fetchGithubKeys\<close>. \<open>http.NewRequestWithContext\<close> cannot fail here: the method is a
  constant, the context is not nil, and the URL is built from a handle that passed
  \<open>validGithubHandle\<close>. The result of \<open>cache.put\<close> is dropped (\<open>_ =\<close>). The buffer
  given to \<open>cache.put\<close> holds what the scanner pulled through the \<open>TeeReader\<close>: the whole
  (limited) body when the scanner reached its end, else the prefix of length
  \<open>tee_extent\<close>.
\<close>

definition fetchGithubKeys ::
    "stdlib \<Rightarrow> string \<Rightarrow> string \<Rightarrow> world \<Rightarrow> (error + string list) \<times> world" where
  "fetchGithubKeys L username cache w =
     (if \<not> validGithubHandle username
      then (Inl (errorString ''not a valid github user name''), w)
      else
        case cacheDir_get L cache username w of
          (Inr data, w1) \<Rightarrow> (parseReaderToKeys (bytes_NewReader data), w1)
        | (Inl _, w1) \<Rightarrow>
            (case http_Do (''https://github.com/'' @ username @ ''.keys'')
                    ''github.com/artyom/age-github'' w1 of
               (Inl err, w2) \<Rightarrow> (Inl err, w2)
             | (Inr resp, w2) \<Rightarrow>
                 if StatusCode resp \<noteq> 200
                 then (Inl (UnexpectedResponseCode (Status resp)), w2)
                 else if \<not> HasPrefix (ContentType resp) ''text/plain''
                 then (Inl (UnexpectedContentType (ContentType resp)), w2)
                 else
                   let body = io_LimitReader (Body resp) (2 ^ 18) in
                   case parseReaderToKeys_rd body of
                     (Inl err, _) \<Rightarrow> (Inl err, w2)
                   | (Inr keys, all_read) \<Rightarrow>
                       let buf = (if all_read then fst body
                                  else take (tee_extent w2) (fst body))
                       in (Inr keys, snd (cacheDir_put L cache username buf w2))))"

section \<open>Rewriting the arguments\<close>

text \<open>
  The body of the loop of \<open>run\<close> for \<open>args[i]\<close>: the tokens it appends to \<open>ageArgs\<close>, or
  the error it returns. Go's \<open>&&\<close> evaluates \<open>args[i-1]\<close> only when \<open>i > 0\<close>.
\<close>

definition loop_body ::
    "stdlib \<Rightarrow> string \<Rightarrow> string list \<Rightarrow> nat \<Rightarrow> world \<Rightarrow> (error + string list) \<times> world" where
  "loop_body L cache args i w =
     (let v = args ! i in
      if HasPrefix v ''@'' \<and> 0 < i \<and> isRecipientFlag (args ! (i - 1)) then
        (let userName = drop 1 v in
         case fetchGithubKeys L userName cache w of
           (Inl err, w') \<Rightarrow> (Inl (FetchingKeys userName err), w')
         | (Inr keys, w') \<Rightarrow>
             if length keys = 0 then (Inl (NoKeysFound userName), w')
             else (Inr [keys ! 0], w'))
      else
        let j = IndexByte v (CHR ''='') in
        if 0 < j \<and> isRecipientFlag (take (nat j) v) then
          (let flagArg = drop (nat j + 1) v in
           if \<not> HasPrefix flagArg ''@'' then (Inr [v], w)
           else
             let userName = drop 1 flagArg in
             case fetchGithubKeys L userName cache w of
               (Inl err, w') \<Rightarrow> (Inl (FetchingKeys userName err), w')
             | (Inr keys, w') \<Rightarrow>
                 if length keys = 0 then (Inl (NoKeysFound userName), w')
                 else (Inr [''-r'', keys ! 0], w'))
        else (Inr [v], w))"

text \<open>The loop \<open>for i, v := range args\<close>, from index \<open>i\<close> on, with \<open>ageArgs\<close> so far.\<close>

function run_loop ::
    "stdlib \<Rightarrow> string \<Rightarrow> string list \<Rightarrow> nat \<Rightarrow> string list \<Rightarrow> world
      \<Rightarrow> (error + string list) \<times> world" where
  "run_loop L cache args i ageArgs w =
     (if i < length args then
        (case loop_body L cache args i w of
           (Inl err, w') \<Rightarrow> (Inl err, w')
         | (Inr toks, w') \<Rightarrow> run_loop L cache args (Suc i) (ageArgs @ toks) w')
      else (Inr ageArgs, w))"
  by pat_completeness auto
termination
  by (relation "measure (\<lambda>(L, cache, args, i, ageArgs, w). length args - i)") auto

section \<open>The program\<close>

definition usage :: string where
  "usage =
     ''age-github is the age tool [1] wrapper which allows using github'' @ [CHR 0x0A] @
     ''user handles as -r flag recipients. This wrapper automatically fetches first ssh'' @ [CHR 0x0A] @
     ''key for a given user from github and calls age with -r flag holding ssh key value.'' @ [CHR 0x0A] @
     [CHR 0x0A] @
     ''Github user handles should have @ prefix, i.e. to encrypt file for'' @ [CHR 0x0A] @
     ''https://github.com/artyom user, you call it as'' @ [CHR 0x0A] @
     [CHR 0x0A] @
     [CHR 0x09] @ ''age-github -r @artyom ...'' @ [CHR 0x0A] @
     [CHR 0x0A] @
     ''[1]: https://filippo.io/age''"

text \<open>
  \<open>syscall.Exec\<close> returns only when it fails; when it succeeds the process is the external
  tool from then on. So \<open>run\<close> either returns an error or ends in the replaced process,
  with the path, the argument vector and the environment it was started with.
\<close>

datatype outcome =
    Returns error
  | Replaced string "string list" "string list"

definition syscall_Exec :: "string \<Rightarrow> string list \<Rightarrow> string list \<Rightarrow> world \<Rightarrow> outcome \<times> world" where
  "syscall_Exec argv0 argv envv w =
     (case exec_error w of
        Some err \<Rightarrow> (Returns err, emit (EvExec argv0 argv envv) w)
      | None \<Rightarrow> (Replaced argv0 argv envv, emit (EvExec argv0 argv envv) w))"

text \<open>
  \<open>var cache cacheDir\<close>, set only when \<open>os.UserCacheDir\<close> gave no error and a directory
  that is not empty; \<open>d\<close> is the result of \<open>os.UserCacheDir\<close>.
\<close>

definition cache_of :: "stdlib \<Rightarrow> error + string \<Rightarrow> string" where
  "cache_of L d =
     (case d of
        Inr dir \<Rightarrow> if dir \<noteq> [] then filepath_Join L dir ''age-github'' else []
      | Inl err \<Rightarrow> [])"

definition run :: "stdlib \<Rightarrow> string list \<Rightarrow> world \<Rightarrow> outcome \<times> world" where
  "run L args w =
     (if length args = 0 then (Returns (errorString usage), w)
      else
        case exec_LookPath ''age'' w of
          (Inl err, w1) \<Rightarrow> (Returns err, w1)
        | (Inr ageBin, w1) \<Rightarrow>
            (case os_UserCacheDir w1 of
               (d, w2) \<Rightarrow>
                 let cache = cache_of L d in
                 case run_loop L cache args 0 [ageBin] w2 of
                   (Inl err, w3) \<Rightarrow> (Returns err, w3)
                 | (Inr ageArgs, w3) \<Rightarrow> syscall_Exec ageBin ageArgs (environ w3) w3))"

text \<open>
  \<open>main\<close>: how the process ends. \<open>args\<close> is \<open>os.Args[1:]\<close>. An error of \<open>run\<close> is written
  to standard error with a newline, and the process exits with status 1.
\<close>

datatype ending =
    Exit nat
  | Became string "string list" "string list"

definition main :: "stdlib \<Rightarrow> string list \<Rightarrow> world \<Rightarrow> ending \<times> world" where
  "main L args w =
     (case run L args w of
        (Returns err, w') \<Rightarrow> (Exit 1, w'\<lparr>stderr := stderr w' @ Error L err @ [CHR 0x0A]\<rparr>)
      | (Replaced argv0 argv envv, w') \<Rightarrow> (Became argv0 argv envv, w'))"

section \<open>The specification's vocabulary\<close>

text \<open>
  The definitions of this section follow the words of the specification, not the code;
  the theorems compare the code with them.

  The handle grammar \<^verbatim>\<open>^[A-Za-z][A-Za-z0-9_-]+$\<close>: a letter, then one or more letters, digits,
  underscores or hyphens, and nothing else.
\<close>

definition letters :: string where
  "letters = ''abcdefghijklmnopqrstuvwxyzABCDEFGHIJKLMNOPQRSTUVWXYZ''"

definition handle_chars :: string where
  "handle_chars = letters @ ''0123456789_-''"

definition handle_grammar :: "string \<Rightarrow> bool" where
  "handle_grammar s =
     (case s of
        [] \<Rightarrow> False
      | c # cs \<Rightarrow> c \<in> set letters \<and> cs \<noteq> [] \<and> list_all (\<lambda>x. x \<in> set handle_chars) cs)"





text \<open>
  The argument vector. The recognized recipient flag spellings; a token that starts with
  \<open>@\<close>; a token at a position greater than 0 that starts with \<open>@\<close> and follows a recognized
  flag; a token \<open>F=@...\<close> with \<open>F\<close> a recognized flag; and a vector with no \<open>@\<close>-prefixed
  recipient value, in either form.
\<close>

definition recipient_flags :: "string list" where
  "recipient_flags = [''-r'', ''--r'', ''-recipient'', ''--recipient'']"

definition starts_with_at :: "string \<Rightarrow> bool" where
  "starts_with_at v = (case v of [] \<Rightarrow> False | c # r \<Rightarrow> c = CHR ''@'')"

definition at_after_flag :: "string list \<Rightarrow> nat \<Rightarrow> bool" where
  "at_after_flag args i =
     (starts_with_at (args ! i) \<and> 0 < i \<and> args ! (i - 1) \<in> set recipient_flags)"

definition flag_eq_at :: "string \<Rightarrow> bool" where
  "flag_eq_at v = list_ex (\<lambda>F. take (length F + 2) v = F @ ''=@'') recipient_flags"

definition no_placeholders :: "string list \<Rightarrow> bool" where
  "no_placeholders args =
     list_all (\<lambda>i. \<not> at_after_flag args i \<and> \<not> flag_eq_at (args ! i)) [0 ..< length args]"

text \<open>The events of the trace that start the external tool.\<close>

definition is_exec :: "event \<Rightarrow> bool" where
  "is_exec e = (case e of EvExec a b c \<Rightarrow> True | _ \<Rightarrow> False)"

section \<open>Concrete inputs\<close>

text \<open>
  A library and a world to run the program on: the digest is stood for by a tag on the key,
  paths are joined with a slash, \<open>%q\<close> puts double quotes around its argument; the network
  knows the keys of \<open>alice\<close> (two keys) and of \<open>nobody\<close> (none), and answers 404 for every
  other URL.
\<close>

definition L0 :: stdlib where
  "L0 = \<lparr>sha1_hex = (\<lambda>k. ''h-'' @ k),
          filepath_Join = (\<lambda>a b. a @ ''/'' @ b),
          quote = (\<lambda>s. [CHR 0x22] @ s @ [CHR 0x22])\<rparr>"

definition keys_alice :: string where
  "keys_alice = ''ssh-ed25519 AAA'' @ [CHR 0x0A] @ ''ssh-rsa BBB'' @ [CHR 0x0A]"

definition net0 :: "string \<Rightarrow> error + response" where
  "net0 url =
     (if url = ''https://github.com/alice.keys''
      then Inr \<lparr>StatusCode = 200, Status = ''200 OK'',
                 ContentType = ''text/plain; charset=utf-8'', Body = (keys_alice, None)\<rparr>
      else if url = ''https://github.com/nobody.keys''
      then Inr \<lparr>StatusCode = 200, Status = ''200 OK'',
                 ContentType = ''text/plain; charset=utf-8'', Body = ([], None)\<rparr>
      else Inr \<lparr>StatusCode = 404, Status = ''404 Not Found'',
                 ContentType = ''text/plain; charset=utf-8'', Body = (''Not Found'', None)\<rparr>)"

definition W0 :: world where
  "W0 = \<lparr>files = Map.empty, denied = (\<lambda>p. False), clock = 1000, http = net0,
          tee_extent = 0, lookPath = (\<lambda>f. Inr (''/usr/bin/'' @ f)),
          userCacheDir = Inr ''/home/u/.cache'', environ = [''HOME=/home/u''],
          exec_error = None, stderr = [], trace = []\<rparr>"

text \<open>The path of the binary, the cache directory, and argument vectors.\<close>

definition bin0 :: string where
  "bin0 = ''/usr/bin/age''"

definition cache0 :: string where
  "cache0 = ''/home/u/.cache/age-github''"

definition args_two_token :: "string list" where
  "args_two_token = [''-r'', ''@alice'', ''file.txt'']"

definition args_flag_eq :: "string list" where
  "args_flag_eq = [''--recipient=@alice'', ''f'']"

definition args_nobody :: "string list" where
  "args_nobody = [''-o'', ''out'', ''-r'', ''@nobody'']"

definition args_nobody_eq :: "string list" where
  "args_nobody_eq = [''-r=@nobody'', ''x'']"

definition args_plain :: "string list" where
  "args_plain = [''@x'', ''-d'', ''-r'', ''age1xyz'', ''-r=abc'', ''-o'', ''@out'', ''k=@v'']"


section \<open>Handles: the pattern and the grammar\<close>

declare scan_tokens.simps [simp del]
declare run_loop.simps [simp del]

lemma in_class_letters: "in_class [(97, 122), (65, 90)] c = (c \<in> set letters)"
  by (cases c) (simp add: in_class_def letters_def)

lemma in_class_word:
  "in_class [(97, 122), (65, 90), (48, 57), (95, 95), (45, 45)] c = (c \<in> set handle_chars)"
  by (cases c) (simp add: in_class_def letters_def handle_chars_def)

lemma matches_NoMatch: "matches NoMatch s = False"
  by (induction s) auto

lemma matches_EmptyMatch: "matches EmptyMatch s = (s = [])"
  by (cases s) (auto simp: matches_NoMatch)

lemma matches_Alternate: "matches (Alternate a b) s = (matches a s \<or> matches b s)"
  by (induction s arbitrary: a b) auto

text \<open>A concatenation matches the strings that split into a match of each part.\<close>

lemma matches_Concat:
  "matches (Concat a b) s = (\<exists>s1 s2. s = s1 @ s2 \<and> matches a s1 \<and> matches b s2)"
proof (induction s arbitrary: a)
  case Nil
  then show ?case by simp
next
  case (Cons c s)
  have split: "(\<exists>s1 s2. c # s = s1 @ s2 \<and> matches a s1 \<and> matches b s2) =
                 ((nullable a \<and> matches (deriv c b) s) \<or>
                  (\<exists>t s2. s = t @ s2 \<and> matches (deriv c a) t \<and> matches b s2))"
    (is "?L = ?R")
  proof
    assume ?L
    then obtain s1 s2 where eq: "c # s = s1 @ s2" and a: "matches a s1" and b: "matches b s2"
      by blast
    show ?R
    proof (cases s1)
      case Nil
      with eq a b show ?thesis by auto
    next
      case (Cons x t)
      with eq a b show ?thesis by auto
    qed
  next
    assume ?R
    then show ?L
    proof
      assume "nullable a \<and> matches (deriv c b) s"
      then have "c # s = [] @ (c # s) \<and> matches a [] \<and> matches b (c # s)" by simp
      then show ?L by blast
    next
      assume "\<exists>t s2. s = t @ s2 \<and> matches (deriv c a) t \<and> matches b s2"
      then obtain t s2 where "s = t @ s2" "matches (deriv c a) t" "matches b s2" by blast
      then have "c # s = (c # t) @ s2 \<and> matches a (c # t) \<and> matches b s2" by simp
      then show ?L by blast
    qed
  qed
  show ?case
    by (auto simp add: split matches_Alternate Cons.IH)
qed

lemma matches_Star_CharClass: "matches (Star (CharClass rs)) s = list_all (in_class rs) s"
proof (induction s)
  case Nil
  then show ?case by simp
next
  case (Cons c s)
  then show ?case
    by (simp add: matches_Concat matches_NoMatch matches_EmptyMatch)
qed

lemma matches_Plus_CharClass:
  "matches (Plus (CharClass rs)) s = (s \<noteq> [] \<and> list_all (in_class rs) s)"
  by (cases s)
    (simp_all add: matches_Concat matches_NoMatch matches_EmptyMatch matches_Star_CharClass)

lemma validGithubHandle_iff_grammar: "validGithubHandle s = handle_grammar s"
proof (cases s)
  case Nil
  then show ?thesis
    by (simp add: validGithubHandle_def MatchString_def userNameRe_def handle_grammar_def)
next
  case (Cons c cs)
  have "matches userNameRe (c # cs) =
          (in_class [(97, 122), (65, 90)] c \<and>
           matches (Plus (CharClass [(97, 122), (65, 90), (48, 57), (95, 95), (45, 45)])) cs)"
    unfolding userNameRe_def
    by (simp add: matches_Concat matches_NoMatch matches_EmptyMatch del: deriv.simps(7))
  then show ?thesis
    using Cons
    by (simp add: validGithubHandle_def MatchString_def handle_grammar_def
        matches_Plus_CharClass in_class_letters in_class_word list_all_iff del: matches.simps)
qed

text \<open>
  C4. Handle validation is true exactly for the strings of the grammar
  \<^verbatim>\<open>^[A-Za-z][A-Za-z0-9_-]+$\<close>; in particular the empty string, a string whose first
  character is not a letter, and a string with a character outside
  \<^verbatim>\<open>[A-Za-z0-9_-]\<close> are rejected.
\<close>

theorem validGithubHandle_grammar:
  "(validGithubHandle s \<longleftrightarrow> handle_grammar s) \<and>
   (s = [] \<longrightarrow> \<not> validGithubHandle s) \<and>
   (s \<noteq> [] \<and> hd s \<notin> set letters \<longrightarrow> \<not> validGithubHandle s) \<and>
   ((\<exists>c \<in> set s. c \<notin> set handle_chars) \<longrightarrow> \<not> validGithubHandle s)"
proof -
  have "c \<in> set handle_chars" if "c \<in> set letters" for c
    using that by (simp add: handle_chars_def)
  then show ?thesis
    unfolding validGithubHandle_iff_grammar handle_grammar_def
    by (cases s) (auto simp: list_all_iff)
qed

theorem validGithubHandle_grammar_witness:
  "validGithubHandle ''artyom'' \<and> handle_grammar ''a-_9'' \<and> validGithubHandle ''a-_9'' \<and>
   \<not> validGithubHandle [] \<and> \<not> validGithubHandle ''1abc'' \<and> \<not> validGithubHandle ''a.b''"
proof -
  have g1: "handle_grammar ''artyom''" and g2: "handle_grammar ''a-_9''"
    by (simp_all add: handle_grammar_def letters_def handle_chars_def)
  have d: "''1abc'' \<noteq> [] \<and> hd ''1abc'' \<notin> set letters"
    by (simp add: letters_def)
  have o: "\<exists>c \<in> set ''a.b''. c \<notin> set handle_chars"
    by (simp add: letters_def handle_chars_def)
  show ?thesis
    using g1 g2 d o
      validGithubHandle_grammar [of "''artyom''"] validGithubHandle_grammar [of "''a-_9''"]
      validGithubHandle_grammar [of "[]"] validGithubHandle_grammar [of "''1abc''"]
      validGithubHandle_grammar [of "''a.b''"]
    by blast
qed

section \<open>Resolution of an invalid handle\<close>

text \<open>
  C5. For a handle outside the grammar, key resolution returns the validation error at
  once: the world is returned as it was (no cache file is looked at and no request is
  sent: the trace is the same), and the result is the same error whatever the cache
  directory, the files and the network are.
\<close>

theorem fetchGithubKeys_invalid_handle:
  "\<not> handle_grammar h \<Longrightarrow>
   fetchGithubKeys L h c w = (Inl (errorString ''not a valid github user name''), w) \<and>
   trace (snd (fetchGithubKeys L h c w)) = trace w \<and>
   fst (fetchGithubKeys L h c w) = fst (fetchGithubKeys L' h c' w')"
  by (simp add: fetchGithubKeys_def validGithubHandle_iff_grammar)

theorem fetchGithubKeys_invalid_handle_witness:
  "\<not> handle_grammar ''1abc'' \<and>
   fetchGithubKeys L0 ''1abc'' ''/home/u/.cache/age-github'' W0 =
     (Inl (errorString ''not a valid github user name''), W0)"
proof -
  have h: "\<not> handle_grammar ''1abc''"
    by (simp add: handle_grammar_def letters_def)
  show ?thesis
    using h fetchGithubKeys_invalid_handle [OF h, of L0 "''/home/u/.cache/age-github''" W0]
    by simp
qed

section \<open>The empty argument list\<close>

text \<open>
  C10. With no arguments \<open>run\<close> returns the usage text as its error and leaves the world
  as it was: no lookup of the binary, no request, no exec (the trace is unchanged). \<open>main\<close>
  then writes the usage text and a newline to standard error and exits with status 1.
\<close>

theorem run_no_arguments:
  "run L [] w = (Returns (errorString usage), w) \<and>
   main L [] w = (Exit 1, w\<lparr>stderr := stderr w @ usage @ [CHR 0x0A]\<rparr>) \<and>
   trace (snd (main L [] w)) = trace w"
  by (simp add: run_def main_def)

section \<open>The disk cache: round trip and staleness\<close>

lemmas os_defs = os_Stat_def ioutil_ReadFile_def os_MkdirAll_def ioutil_WriteFile_def emit_def

text \<open>
  C6. Cache round trip. With a cache directory that is set, once \<open>put\<close> of a payload under
  a handle has been performed (it returned no error), a \<open>get\<close> of the same handle at any
  time \<open>t\<close> not later than one hour after the write returns exactly that payload: both
  build the file name from the same digest of the handle.
\<close>

theorem cache_round_trip:
  "c \<noteq> [] \<Longrightarrow> cacheDir_put L c h data w = (None, w') \<Longrightarrow> t \<le> clock w + Hour \<Longrightarrow>
   fst (cacheDir_get L c h (w'\<lparr>clock := t\<rparr>)) = Inr data"
  by (auto simp: cacheDir_put_def cacheDir_get_def os_defs Let_def split: if_splits)

theorem cache_round_trip_witness:
  "fst (cacheDir_put L0 ''/c'' ''alice'' keys_alice W0) = None \<and>
   fst (cacheDir_get L0 ''/c'' ''alice''
         ((snd (cacheDir_put L0 ''/c'' ''alice'' keys_alice W0))\<lparr>clock := 1000 + Hour\<rparr>)) = Inr keys_alice"
proof -
  have pf: "fst (cacheDir_put L0 ''/c'' ''alice'' keys_alice W0) = None"
    by (simp add: cacheDir_put_def os_defs L0_def W0_def Let_def)
  have p: "cacheDir_put L0 ''/c'' ''alice'' keys_alice W0 =
             (None, snd (cacheDir_put L0 ''/c'' ''alice'' keys_alice W0))"
    by (simp add: prod_eq_iff pf)
  have t: "1000 + Hour \<le> clock W0 + Hour"
    by (simp add: W0_def)
  show ?thesis
    using cache_round_trip [OF _ p t] pf by simp
qed

text \<open>
  C7. \<open>get\<close> fails exactly when the cache directory is unset, the file of the handle does
  not exist or cannot be read, or its modification time is before now minus one hour. A
  stale entry is reported as \<open>os.ErrNotExist\<close> whatever its content, and a readable entry
  whose age is at most one hour is returned.
\<close>

theorem cacheDir_get_fails:
  "((\<exists>e. fst (cacheDir_get L c h w) = Inl e) \<longleftrightarrow>
      (c = [] \<or> files w (filepath_Join L c (sha1_hex L h)) = None \<or>
       denied w (filepath_Join L c (sha1_hex L h)) \<or>
       (\<exists>f. files w (filepath_Join L c (sha1_hex L h)) = Some f \<and> modTime f < clock w - Hour))) \<and>
   (\<forall>f. c \<noteq> [] \<and> files w (filepath_Join L c (sha1_hex L h)) = Some f \<and>
        modTime f < clock w - Hour \<longrightarrow>
        fst (cacheDir_get L c h w) = Inl ErrNotExist) \<and>
   (\<forall>f. c \<noteq> [] \<and> files w (filepath_Join L c (sha1_hex L h)) = Some f \<and>
        clock w - modTime f \<le> Hour \<and> \<not> denied w (filepath_Join L c (sha1_hex L h)) \<longrightarrow>
        fst (cacheDir_get L c h w) = Inr (content f))"
  by (auto simp: cacheDir_get_def os_defs Let_def split: option.splits)

theorem cacheDir_get_fails_witness:
  "fst (cacheDir_get L0 ''/c'' ''alice''
         (W0\<lparr>files := [''/c/h-alice'' \<mapsto> \<lparr>modTime = 0, content = keys_alice\<rparr>],
             clock := Hour + 1\<rparr>)) = Inl ErrNotExist \<and>
   fst (cacheDir_get L0 ''/c'' ''alice''
         (W0\<lparr>files := [''/c/h-alice'' \<mapsto> \<lparr>modTime = 0, content = keys_alice\<rparr>],
             clock := Hour\<rparr>)) = Inr keys_alice \<and>
   (\<exists>e. fst (cacheDir_get L0 [] ''alice'' W0) = Inl e) \<and>
   (\<exists>e. fst (cacheDir_get L0 ''/c'' ''alice'' W0) = Inl e)"
proof -
  let ?f = "\<lparr>modTime = 0, content = keys_alice\<rparr>"
  let ?w1 = "W0\<lparr>files := [''/c/h-alice'' \<mapsto> ?f], clock := Hour + 1\<rparr>"
  let ?w2 = "W0\<lparr>files := [''/c/h-alice'' \<mapsto> ?f], clock := Hour\<rparr>"
  have p: "filepath_Join L0 ''/c'' (sha1_hex L0 ''alice'') = ''/c/h-alice''"
    by (simp add: L0_def)
  have s1: "''/c'' \<noteq> [] \<and> files ?w1 (filepath_Join L0 ''/c'' (sha1_hex L0 ''alice'')) = Some ?f \<and>
            modTime ?f < clock ?w1 - Hour"
    by (simp add: p W0_def)
  have s2: "''/c'' \<noteq> [] \<and> files ?w2 (filepath_Join L0 ''/c'' (sha1_hex L0 ''alice'')) = Some ?f \<and>
            clock ?w2 - modTime ?f \<le> Hour \<and>
            \<not> denied ?w2 (filepath_Join L0 ''/c'' (sha1_hex L0 ''alice''))"
    by (simp add: p W0_def)
  have s3: "files W0 (filepath_Join L0 ''/c'' (sha1_hex L0 ''alice'')) = None"
    by (simp add: W0_def)
  have d3: "[] = [] \<or> files W0 (filepath_Join L0 [] (sha1_hex L0 ''alice'')) = None \<or>
       denied W0 (filepath_Join L0 [] (sha1_hex L0 ''alice'')) \<or>
       (\<exists>f. files W0 (filepath_Join L0 [] (sha1_hex L0 ''alice'')) = Some f \<and>
            modTime f < clock W0 - Hour)"
    by simp
  have d4: "''/c'' = [] \<or> files W0 (filepath_Join L0 ''/c'' (sha1_hex L0 ''alice'')) = None \<or>
       denied W0 (filepath_Join L0 ''/c'' (sha1_hex L0 ''alice'')) \<or>
       (\<exists>f. files W0 (filepath_Join L0 ''/c'' (sha1_hex L0 ''alice'')) = Some f \<and>
            modTime f < clock W0 - Hour)"
    using s3 by simp
  have r1: "fst (cacheDir_get L0 ''/c'' ''alice'' ?w1) = Inl ErrNotExist"
    by (rule cacheDir_get_fails [of L0 "''/c''" "''alice''" ?w1,
          THEN conjunct2, THEN conjunct1, rule_format, OF s1])
  have r2: "fst (cacheDir_get L0 ''/c'' ''alice'' ?w2) = Inr (content ?f)"
    by (rule cacheDir_get_fails [of L0 "''/c''" "''alice''" ?w2,
          THEN conjunct2, THEN conjunct2, rule_format, OF s2])
  have r3: "\<exists>e. fst (cacheDir_get L0 [] ''alice'' W0) = Inl e"
    by (rule cacheDir_get_fails [of L0 "[]" "''alice''" W0, THEN conjunct1, THEN iffD2, OF d3])
  have r4: "\<exists>e. fst (cacheDir_get L0 ''/c'' ''alice'' W0) = Inl e"
    by (rule cacheDir_get_fails [of L0 "''/c''" "''alice''" W0, THEN conjunct1, THEN iffD2, OF d4])
  from r2 have r2': "fst (cacheDir_get L0 ''/c'' ''alice'' ?w2) = Inr keys_alice"
    by simp
  from r1 r2' r3 r4 show ?thesis
    by (intro conjI)
qed


section \<open>The key parser\<close>

lemma IndexByte_absent: "c \<notin> set s \<Longrightarrow> IndexByte s c = - 1"
  by (induction s) auto

lemma IndexByte_first: "c \<notin> set pre \<Longrightarrow> IndexByte (pre @ c # post) c = int (length pre)"
  by (induction pre) (auto simp: Let_def)

lemma IndexByte_cases:
  "(c \<notin> set s \<and> IndexByte s c = - 1) \<or>
   (\<exists>pre post. s = pre @ c # post \<and> c \<notin> set pre \<and> IndexByte s c = int (length pre))"
proof (cases "c \<in> set s")
  case True
  then obtain pre post where "s = pre @ c # post" "c \<notin> set pre"
    by (meson split_list_first)
  then show ?thesis
    using IndexByte_first by blast
next
  case False
  then show ?thesis by (simp add: IndexByte_absent)
qed












section \<open>The loop body, by the form of the token\<close>

lemma HasPrefix_at: "HasPrefix v ''@'' = starts_with_at v"
  by (cases v) (auto simp: HasPrefix_def starts_with_at_def)

lemma isRecipientFlag_iff: "isRecipientFlag s = (s \<in> set recipient_flags)"
  by (auto simp: isRecipientFlag_def recipient_flags_def)

lemma flag_facts:
  "F \<in> set recipient_flags \<Longrightarrow> CHR ''='' \<notin> set F \<and> F \<noteq> [] \<and> \<not> starts_with_at (F @ x)"
  by (auto simp: recipient_flags_def starts_with_at_def)

lemma flag_eq_at_iff:
  "flag_eq_at v = (\<exists>F \<in> set recipient_flags. \<exists>r. v = F @ ''=@'' @ r)"
proof -
  have "(take (length F + 2) v = F @ ''=@'') = (\<exists>r. v = F @ ''=@'' @ r)" for F
  proof
    assume t: "take (length F + 2) v = F @ ''=@''"
    have "v = take (length F + 2) v @ drop (length F + 2) v" by simp
    with t have "v = F @ ''=@'' @ drop (length F + 2) v" by simp
    then show "\<exists>r. v = F @ ''=@'' @ r" ..
  next
    assume "\<exists>r. v = F @ ''=@'' @ r"
    then show "take (length F + 2) v = F @ ''=@''" by auto
  qed
  then show ?thesis
    by (simp add: flag_eq_at_def list_ex_iff)
qed

text \<open>A token that starts with \<open>@\<close> after a flag: the first branch of the loop body.\<close>

lemma loop_body_at_after_flag:
  "at_after_flag args i \<Longrightarrow>
   loop_body L c args i w =
     (case fetchGithubKeys L (drop 1 (args ! i)) c w of
        (Inl err, w') \<Rightarrow> (Inl (FetchingKeys (drop 1 (args ! i)) err), w')
      | (Inr keys, w') \<Rightarrow>
          if keys = [] then (Inl (NoKeysFound (drop 1 (args ! i))), w')
          else (Inr [hd keys], w'))"
  by (auto simp: loop_body_def at_after_flag_def HasPrefix_at isRecipientFlag_iff Let_def hd_conv_nth
           split: prod.splits sum.splits)

text \<open>A token \<open>F=V\<close> with a recognized flag \<open>F\<close>: the second branch.\<close>

lemma loop_body_flag_eq:
  assumes "args ! i = F @ ''='' @ V" and "F \<in> set recipient_flags"
  shows "loop_body L c args i w =
     (if \<not> starts_with_at V then (Inr [args ! i], w)
      else case fetchGithubKeys L (drop 1 V) c w of
        (Inl err, w') \<Rightarrow> (Inl (FetchingKeys (drop 1 V) err), w')
      | (Inr keys, w') \<Rightarrow>
          if keys = [] then (Inl (NoKeysFound (drop 1 V)), w')
          else (Inr [''-r'', hd keys], w'))"
proof -
  let ?v = "F @ CHR ''='' # V"
  from assms(2) have f: "CHR ''='' \<notin> set F" "F \<noteq> []" "\<not> starts_with_at ?v"
    using flag_facts by blast+
  have v: "args ! i = ?v"
    using assms(1) by simp
  have ix: "IndexByte ?v (CHR ''='') = int (length F)"
    using f(1) by (rule IndexByte_first)
  have a: "\<not> HasPrefix ?v ''@''"
    unfolding HasPrefix_at by (rule f(3))
  have j: "0 < int (length F)"
    using f(2) by simp
  have tk: "take (length F) ?v = F" and dr: "drop (Suc (length F)) ?v = V"
    by simp_all
  have fl: "isRecipientFlag F"
    using assms(2) by (simp add: isRecipientFlag_iff)
  have "loop_body L c args i w =
     (if \<not> HasPrefix V ''@'' then (Inr [?v], w)
      else case fetchGithubKeys L (drop 1 V) c w of
        (Inl err, w') \<Rightarrow> (Inl (FetchingKeys (drop 1 V) err), w')
      | (Inr keys, w') \<Rightarrow>
          if length keys = 0 then (Inl (NoKeysFound (drop 1 V)), w')
          else (Inr [''-r'', keys ! 0], w'))"
    unfolding loop_body_def v Let_def ix nat_int
    by (simp only: a j tk dr fl Suc_eq_plus1 [symmetric] simp_thms if_True if_False)
  then show ?thesis
    unfolding v
    by (auto simp: HasPrefix_at hd_conv_nth split: prod.splits sum.splits)
qed

text \<open>The second branch resolves a handle only for a token \<open>F=@...\<close>.\<close>

lemma loop_body_eq_form:
  assumes "\<not> at_after_flag args i"
    and "0 < IndexByte (args ! i) (CHR ''='')"
    and "isRecipientFlag (take (nat (IndexByte (args ! i) (CHR ''=''))) (args ! i))"
    and "HasPrefix (drop (nat (IndexByte (args ! i) (CHR ''='')) + 1) (args ! i)) ''@''"
  shows "flag_eq_at (args ! i)"
proof -
  let ?v = "args ! i"
  from IndexByte_cases [of "CHR ''=''" ?v] assms(2)
  obtain pre post where v: "?v = pre @ CHR ''='' # post"
    and ix: "IndexByte ?v (CHR ''='') = int (length pre)"
    by auto
  from assms(3) ix v have fl: "pre \<in> set recipient_flags"
    by (simp add: isRecipientFlag_iff)
  from assms(4) ix v have "starts_with_at post"
    by (simp add: HasPrefix_at)
  then obtain r where "post = CHR ''@'' # r"
    by (cases post) (auto simp: starts_with_at_def)
  with v have "?v = pre @ ''=@'' @ r" by simp
  with fl show ?thesis
    unfolding flag_eq_at_iff by blast
qed

lemma loop_body_other:
  "\<not> at_after_flag args i \<Longrightarrow> \<not> flag_eq_at (args ! i) \<Longrightarrow>
   loop_body L c args i w = (Inr [args ! i], w)"
  using loop_body_eq_form [of args i]
  by (auto simp: loop_body_def Let_def at_after_flag_def HasPrefix_at isRecipientFlag_iff)

lemma loop_body_not_after_flag:
  assumes "\<not> at_after_flag args i" and "loop_body L c args i w = (Inr ts, w')"
  shows "(ts = [args ! i] \<and> w' = w) \<or> (\<exists>k. ts = [''-r'', k] \<and> flag_eq_at (args ! i))"
proof (cases "flag_eq_at (args ! i)")
  case False
  with assms show ?thesis by (simp add: loop_body_other)
next
  case True
  then obtain F r where F: "F \<in> set recipient_flags" and v: "args ! i = F @ ''='' @ (CHR ''@'' # r)"
    unfolding flag_eq_at_iff by auto
  have "starts_with_at (CHR ''@'' # r)" by (simp add: starts_with_at_def)
  with assms(2) True show ?thesis
    unfolding loop_body_flag_eq [OF v F]
    by (auto split: prod.splits sum.splits if_splits)
qed

section \<open>The loop over the arguments\<close>

lemma run_loop_step:
  "i < length args \<Longrightarrow>
   run_loop L c args i acc w =
     (case loop_body L c args i w of
        (Inl e, w') \<Rightarrow> (Inl e, w')
      | (Inr ts, w') \<Rightarrow> run_loop L c args (Suc i) (acc @ ts) w')"
  by (subst run_loop.simps) simp

lemma run_loop_done: "length args \<le> i \<Longrightarrow> run_loop L c args i acc w = (Inr acc, w)"
  by (subst run_loop.simps) simp

lemma loop_body_take:
  "j < i \<Longrightarrow> i \<le> length args \<Longrightarrow> loop_body L c (take i args) j w = loop_body L c args j w"
  by (simp add: loop_body_def)

text \<open>
  The loop up to position \<open>i\<close> is the loop over the first \<open>i\<close> arguments: the body at a
  position looks at that argument and the one before it only.
\<close>

lemma run_loop_prefix:
  "j \<le> i \<Longrightarrow> i \<le> length args \<Longrightarrow>
   run_loop L c args j acc w =
     (case run_loop L c (take i args) j acc w of
        (Inl e, w1) \<Rightarrow> (Inl e, w1)
      | (Inr acc1, w1) \<Rightarrow> run_loop L c args i acc1 w1)"
proof (induction "i - j" arbitrary: j acc w)
  case 0
  then have "j = i" by simp
  with "0.prems" show ?case by (simp add: run_loop_done)
next
  case (Suc n)
  then have lt: "j < i" and lt': "j < length args" and lt'': "j < length (take i args)"
    by simp_all
  have ih: "run_loop L c args (Suc j) a v =
     (case run_loop L c (take i args) (Suc j) a v of
        (Inl e, w1) \<Rightarrow> (Inl e, w1)
      | (Inr acc1, w1) \<Rightarrow> run_loop L c args i acc1 w1)" for a v
    using Suc.hyps Suc.prems by (intro Suc.hyps(1)) simp_all
  show ?case
    unfolding run_loop_step [OF lt'] run_loop_step [OF lt''] loop_body_take [OF lt Suc.prems(2)]
    by (simp add: ih split: prod.splits sum.splits)
qed

text \<open>The loop only appends to \<open>ageArgs\<close>.\<close>

lemma run_loop_acc:
  "run_loop L c args i acc w =
     (case run_loop L c args i [] w of
        (Inl e, w') \<Rightarrow> (Inl e, w')
      | (Inr out, w') \<Rightarrow> (Inr (acc @ out), w'))"
proof (induction "length args - i" arbitrary: i acc w)
  case 0
  then show ?case by (simp add: run_loop_done)
next
  case (Suc n)
  then have lt: "i < length args" by simp
  have ih: "run_loop L c args (Suc i) a v =
     (case run_loop L c args (Suc i) [] v of
        (Inl e, w') \<Rightarrow> (Inl e, w')
      | (Inr out, w') \<Rightarrow> (Inr (a @ out), w'))" for a v
    using Suc.hyps by (intro Suc.hyps(1)) simp
  show ?case
    unfolding run_loop_step [OF lt]
    by (subst (1 2) ih) (simp split: prod.splits sum.splits)
qed

text \<open>
  A loop that ran to its end, cut at position \<open>i\<close>: the tokens of the arguments before
  \<open>i\<close>, then those of \<open>args[i]\<close>, then those of the arguments after it.
\<close>

lemma run_loop_decompose:
  assumes "run_loop L c args 0 acc w = (Inr out, w')" and "i < length args"
  obtains pre w1 ts w2 post where
    "run_loop L c (take i args) 0 acc w = (Inr pre, w1)"
    "loop_body L c args i w1 = (Inr ts, w2)"
    "run_loop L c args (Suc i) (pre @ ts) w2 = (Inr out, w')"
    "out = pre @ ts @ post"
proof -
  from assms(2) have le: "i \<le> length args" by simp
  from run_loop_prefix [OF _ le, of 0 L c acc w] assms(1)
  obtain pre w1 where p: "run_loop L c (take i args) 0 acc w = (Inr pre, w1)"
    and r: "run_loop L c args i pre w1 = (Inr out, w')"
    by (auto split: prod.splits sum.splits)
  from r obtain ts w2 where b: "loop_body L c args i w1 = (Inr ts, w2)"
    and k: "run_loop L c args (Suc i) (pre @ ts) w2 = (Inr out, w')"
    unfolding run_loop_step [OF assms(2)]
    by (auto split: prod.splits sum.splits)
  from k obtain post where "out = (pre @ ts) @ post"
    by (subst (asm) run_loop_acc) (auto split: prod.splits sum.splits)
  then have "out = pre @ ts @ post" by simp
  with p b k show ?thesis by (rule that)
qed

lemma loop_body_one_token:
  assumes "\<not> flag_eq_at (args ! i)" and "loop_body L c args i w = (Inr ts, w')"
  shows "length ts = 1"
proof (cases "at_after_flag args i")
  case True
  with assms(2) show ?thesis
    by (auto simp: loop_body_at_after_flag split: prod.splits sum.splits if_splits)
next
  case False
  with assms show ?thesis by (auto simp: loop_body_other)
qed

lemma run_loop_no_placeholders:
  "no_placeholders args \<Longrightarrow> i \<le> length args \<Longrightarrow>
   run_loop L c args i acc w = (Inr (acc @ drop i args), w)"
proof (induction "length args - i" arbitrary: i acc)
  case 0
  then show ?case by (simp add: run_loop_done)
next
  case (Suc n)
  then have lt: "i < length args" by simp
  with Suc.prems(1) have "\<not> at_after_flag args i" "\<not> flag_eq_at (args ! i)"
    by (simp_all add: no_placeholders_def list_all_iff)
  then have b: "loop_body L c args i w = (Inr [args ! i], w)"
    by (rule loop_body_other)
  have "run_loop L c args (Suc i) (acc @ [args ! i]) w =
          (Inr ((acc @ [args ! i]) @ drop (Suc i) args), w)"
    using Suc.hyps Suc.prems lt by (intro Suc.hyps(1)) simp_all
  then show ?case
    unfolding run_loop_step [OF lt] b
    using lt by (simp add: Cons_nth_drop_Suc)
qed

text \<open>Nothing before the last line of \<open>run\<close> starts the external tool.\<close>

lemma filter_exec_emit:
  "\<not> is_exec e \<Longrightarrow> filter is_exec (trace (emit e w)) = filter is_exec (trace w)"
  by (simp add: emit_def)

lemma cacheDir_get_no_exec:
  "filter is_exec (trace (snd (cacheDir_get L c k w))) = filter is_exec (trace w)"
  by (auto simp: cacheDir_get_def os_Stat_def ioutil_ReadFile_def Let_def filter_exec_emit is_exec_def
           split: option.splits)

lemma cacheDir_put_no_exec:
  "filter is_exec (trace (snd (cacheDir_put L c k d w))) = filter is_exec (trace w)"
  by (auto simp: cacheDir_put_def os_MkdirAll_def ioutil_WriteFile_def Let_def emit_def is_exec_def)

lemma fetchGithubKeys_no_exec:
  "filter is_exec (trace (snd (fetchGithubKeys L h c w))) = filter is_exec (trace w)"
proof (cases "validGithubHandle h")
  case False
  then show ?thesis by (simp add: fetchGithubKeys_def)
next
  case True
  obtain r1 w1 where g: "cacheDir_get L c h w = (r1, w1)"
    by (cases "cacheDir_get L c h w")
  have t1: "filter is_exec (trace w1) = filter is_exec (trace w)"
    using cacheDir_get_no_exec [of L c h w] g by simp
  show ?thesis
  proof (cases r1)
    case (Inr data)
    with True g t1 show ?thesis by (simp add: fetchGithubKeys_def)
  next
    case (Inl e)
    let ?url = "''https://github.com/'' @ h @ ''.keys''"
    let ?w2 = "emit (EvHttpGet ?url ''github.com/artyom/age-github'') w1"
    have t2: "filter is_exec (trace ?w2) = filter is_exec (trace w)"
      using t1 by (simp add: filter_exec_emit is_exec_def)
    have d: "http_Do ?url ''github.com/artyom/age-github'' w1 = (http w1 ?url, ?w2)"
      by (simp add: http_Do_def)
    show ?thesis
    proof (cases "http w1 ?url")
      case (Inl err)
      with True g \<open>r1 = Inl e\<close> d t2 show ?thesis by (simp add: fetchGithubKeys_def)
    next
      case (Inr resp)
      with True g \<open>r1 = Inl e\<close> d t2 show ?thesis
        by (simp add: fetchGithubKeys_def Let_def cacheDir_put_no_exec split: prod.splits sum.splits)
    qed
  qed
qed

lemma loop_body_no_exec:
  "filter is_exec (trace (snd (loop_body L c args i w))) = filter is_exec (trace w)"
proof -
  have f: "filter is_exec (trace w1) = filter is_exec (trace w)"
    if "fetchGithubKeys L h c w = (r, w1)" for r w1 h
    using fetchGithubKeys_no_exec [of L h c w] that by simp
  show ?thesis
  proof (cases "at_after_flag args i")
    case True
    show ?thesis
      unfolding loop_body_at_after_flag [OF True]
      by (simp add: f split: prod.splits sum.splits)
  next
    case False
    show ?thesis
    proof (cases "flag_eq_at (args ! i)")
      case no: False
      with False show ?thesis by (simp add: loop_body_other)
    next
      case True
      then obtain F r where F: "F \<in> set recipient_flags"
        and v: "args ! i = F @ ''='' @ (CHR ''@'' # r)"
        unfolding flag_eq_at_iff by auto
      show ?thesis
        unfolding loop_body_flag_eq [OF v F]
        by (simp add: f split: prod.splits sum.splits)
    qed
  qed
qed

lemma run_loop_no_exec:
  "filter is_exec (trace (snd (run_loop L c args i acc w))) = filter is_exec (trace w)"
proof (induction "length args - i" arbitrary: i acc w)
  case 0
  then show ?case by (simp add: run_loop_done)
next
  case (Suc n)
  then have lt: "i < length args" by simp
  have ih: "filter is_exec (trace (snd (run_loop L c args (Suc i) a v))) = filter is_exec (trace v)"
    for a v
    using Suc.hyps by (intro Suc.hyps(1)) simp
  have b: "filter is_exec (trace w1) = filter is_exec (trace w)"
    if "loop_body L c args i w = (r, w1)" for r w1
    using loop_body_no_exec [of L c args i w] that by simp
  show ?case
    unfolding run_loop_step [OF lt]
    by (auto simp: ih b split: prod.splits sum.splits)
qed

section \<open>The rewriter\<close>

text \<open>One token for an argument, two for a token \<open>F=@...\<close>.\<close>

lemma loop_body_token_count:
  assumes "loop_body L c args i w = (Inr ts, w')"
  shows "length ts = (if flag_eq_at (args ! i) then 2 else 1)"
proof (cases "flag_eq_at (args ! i)")
  case False
  with assms show ?thesis by (simp add: loop_body_one_token)
next
  case True
  then obtain F r where F: "F \<in> set recipient_flags"
    and v: "args ! i = F @ ''='' @ (CHR ''@'' # r)"
    unfolding flag_eq_at_iff by auto
  have "starts_with_at (CHR ''@'' # r)" by (simp add: starts_with_at_def)
  with assms True show ?thesis
    unfolding loop_body_flag_eq [OF v F]
    by (auto split: prod.splits sum.splits if_splits)
qed

lemma run_loop_token_count:
  "run_loop L c args i acc w = (Inr out, w') \<Longrightarrow> i \<le> length args \<Longrightarrow>
   length out = length acc + (length args - i) + length (filter flag_eq_at (drop i args))"
proof (induction "length args - i" arbitrary: i acc w)
  case 0
  then show ?case by (simp add: run_loop_done)
next
  case (Suc n)
  then have lt: "i < length args" by simp
  from Suc.prems(1) obtain ts w2 where b: "loop_body L c args i w = (Inr ts, w2)"
    and k: "run_loop L c args (Suc i) (acc @ ts) w2 = (Inr out, w')"
    unfolding run_loop_step [OF lt]
    by (auto split: prod.splits sum.splits)
  have n: "length ts = (if flag_eq_at (args ! i) then 2 else 1)"
    using b by (rule loop_body_token_count)
  have "length out = length (acc @ ts) + (length args - Suc i) +
          length (filter flag_eq_at (drop (Suc i) args))"
    using Suc.hyps k lt by (intro Suc.hyps(1)) simp_all
  moreover have "drop i args = args ! i # drop (Suc i) args"
    using lt by (simp add: Cons_nth_drop_Suc)
  ultimately show ?case
    using lt n by simp
qed

text \<open>
  C1. Take any argument vector whose rewriting ran to its end, and any position \<open>i\<close> in it.
  The result is the tokens \<open>pre\<close> produced for the arguments before \<open>i\<close> (the loop over
  the first \<open>i\<close> arguments, which ends in the world \<open>w1\<close>), then the tokens \<open>ts\<close> produced
  for \<open>args[i]\<close>, then those of the arguments after it. If \<open>args[i]\<close> starts with \<open>@\<close>,
  \<open>i > 0\<close> and \<open>args[i-1]\<close> is one of \<open>-r\<close>, \<open>--r\<close>, \<open>-recipient\<close>, \<open>--recipient\<close>, then
  \<open>ts\<close> is the single first element of the key list resolved in \<open>w1\<close> for the token without
  its \<open>@\<close>. If not, the token is not replaced in place: either it is passed on
  unchanged and nothing is resolved, or it is a token \<open>F=@...\<close> and two tokens stand for
  it. A token that starts with \<open>@\<close> and does not follow a flag is passed on unchanged; so
  is a token that starts with \<open>@\<close> at position 0. When the vector has no token \<open>F=@...\<close>, the number of
  tokens is kept and every token keeps its position (shifted by the tokens that were there
  before the loop, the path of the binary): the token of \<open>args[i]\<close> is at position
  \<open>length acc + i\<close>.
\<close>

theorem rewrite_in_place:
  assumes "run_loop L c args 0 acc w = (Inr out, w')" and "i < length args"
  shows "\<exists>pre w1 ts w2 post.
      run_loop L c (take i args) 0 acc w = (Inr pre, w1) \<and>
      loop_body L c args i w1 = (Inr ts, w2) \<and>
      run_loop L c args (Suc i) (pre @ ts) w2 = (Inr out, w') \<and>
      out = pre @ ts @ post \<and>
      (at_after_flag args i \<longrightarrow>
         (\<exists>keys. fetchGithubKeys L (drop 1 (args ! i)) c w1 = (Inr keys, w2) \<and>
                 keys \<noteq> [] \<and> ts = [hd keys])) \<and>
      (\<not> at_after_flag args i \<longrightarrow>
         (ts = [args ! i] \<and> w2 = w1) \<or> (flag_eq_at (args ! i) \<and> length ts = 2)) \<and>
      (starts_with_at (args ! i) \<and> \<not> at_after_flag args i \<longrightarrow> ts = [args ! i] \<and> w2 = w1) \<and>
      (starts_with_at (args ! i) \<and> i = 0 \<longrightarrow> ts = [args ! i] \<and> w2 = w1) \<and>
      ((\<forall>j<length args. \<not> flag_eq_at (args ! j)) \<longrightarrow>
         length out = length acc + length args \<and> length pre = length acc + i \<and>
         out ! (length acc + i) = hd ts)"
proof -
  from assms obtain pre w1 ts w2 post where
    p: "run_loop L c (take i args) 0 acc w = (Inr pre, w1)" and
    b: "loop_body L c args i w1 = (Inr ts, w2)" and
    k: "run_loop L c args (Suc i) (pre @ ts) w2 = (Inr out, w')" and
    o: "out = pre @ ts @ post"
    by (rule run_loop_decompose)
  have a: "\<exists>keys. fetchGithubKeys L (drop 1 (args ! i)) c w1 = (Inr keys, w2) \<and>
                 keys \<noteq> [] \<and> ts = [hd keys]" if "at_after_flag args i"
    using b unfolding loop_body_at_after_flag [OF that]
    by (auto split: prod.splits sum.splits if_splits)
  have n: "(ts = [args ! i] \<and> w2 = w1) \<or> (flag_eq_at (args ! i) \<and> length ts = 2)"
    if "\<not> at_after_flag args i"
    using loop_body_not_after_flag [OF that b] by auto
  have s: "ts = [args ! i] \<and> w2 = w1" if "starts_with_at (args ! i)" "\<not> at_after_flag args i"
  proof -
    have "\<not> flag_eq_at (args ! i)"
      using that(1) flag_facts unfolding flag_eq_at_iff by auto
    with that(2) b show ?thesis by (auto simp: loop_body_other)
  qed
  have z: "ts = [args ! i] \<and> w2 = w1" if "starts_with_at (args ! i)" "i = 0"
    using that s by (simp add: at_after_flag_def)
  have l: "length out = length acc + length args \<and> length pre = length acc + i \<and>
           out ! (length acc + i) = hd ts"
    if nf: "\<forall>j<length args. \<not> flag_eq_at (args ! j)"
  proof -
    from nf have f0: "filter flag_eq_at args = []"
      by (auto simp: filter_empty_conv in_set_conv_nth)
    from nf assms(2) have f1: "filter flag_eq_at (take i args) = []"
      by (auto simp: filter_empty_conv in_set_conv_nth)
    have lo: "length out = length acc + length args"
      using run_loop_token_count [OF assms(1)] f0 by simp
    have lp: "length pre = length acc + i"
      using run_loop_token_count [OF p] f1 assms(2) by simp
    from nf assms(2) b have "length ts = 1"
      by (simp add: loop_body_token_count)
    then obtain t where "ts = [t]"
      by (cases ts) auto
    with o lp have "out ! (length acc + i) = hd ts"
      by (simp add: nth_append)
    with lo lp show ?thesis by simp
  qed
  from p b k o a n s z l show ?thesis
    by blast
qed

text \<open>
  C2. In a rewriting that ran to its end, take a token \<open>F=V\<close> with \<open>F\<close> a recognized
  recipient flag (so the \<open>=\<close> is at an index greater than 0). If \<open>V\<close> does not start with
  \<open>@\<close>, the token is passed on unchanged and nothing is resolved. If \<open>V\<close> starts with
  \<open>@\<close>, exactly two tokens stand for it: the literal \<open>-r\<close>, whatever the spelling \<open>F\<close>,
  and the first key resolved for \<open>V\<close> without its \<open>@\<close>. The result has one token more
  than the arguments for each token \<open>F=@...\<close>.
\<close>

theorem rewrite_flag_eq_value:
  assumes "run_loop L c args 0 acc w = (Inr out, w')" and "i < length args"
    and "args ! i = F @ ''='' @ V" and "F \<in> set recipient_flags"
  shows "\<exists>pre w1 ts w2 post.
      run_loop L c (take i args) 0 acc w = (Inr pre, w1) \<and>
      loop_body L c args i w1 = (Inr ts, w2) \<and>
      run_loop L c args (Suc i) (pre @ ts) w2 = (Inr out, w') \<and>
      out = pre @ ts @ post \<and>
      (\<not> starts_with_at V \<longrightarrow> ts = [args ! i] \<and> w2 = w1) \<and>
      (starts_with_at V \<longrightarrow>
         (\<exists>keys. fetchGithubKeys L (drop 1 V) c w1 = (Inr keys, w2) \<and> keys \<noteq> [] \<and>
                 ts = [''-r'', hd keys]) \<and>
         length ts = 2) \<and>
      length out = length acc + length args + length (filter flag_eq_at args)"
proof -
  from assms(1,2) obtain pre w1 ts w2 post where
    p: "run_loop L c (take i args) 0 acc w = (Inr pre, w1)" and
    b: "loop_body L c args i w1 = (Inr ts, w2)" and
    k: "run_loop L c args (Suc i) (pre @ ts) w2 = (Inr out, w')" and
    o: "out = pre @ ts @ post"
    by (rule run_loop_decompose)
  have u: "ts = [args ! i] \<and> w2 = w1" if "\<not> starts_with_at V"
    using b that unfolding loop_body_flag_eq [OF assms(3,4)] by simp
  have e: "(\<exists>keys. fetchGithubKeys L (drop 1 V) c w1 = (Inr keys, w2) \<and> keys \<noteq> [] \<and>
                 ts = [''-r'', hd keys]) \<and> length ts = 2" if "starts_with_at V"
    using b that unfolding loop_body_flag_eq [OF assms(3,4)]
    by (auto split: prod.splits sum.splits if_splits)
  have l: "length out = length acc + length args + length (filter flag_eq_at args)"
    using run_loop_token_count [OF assms(1)] by simp
  from p b k o u e l show ?thesis
    by blast
qed

text \<open>
  C8. Let \<open>run\<close> have found the binary, and let the loop have reached position \<open>i\<close> (in
  the world \<open>w1\<close>), where a handle \<open>h\<close> stands, in the two-token form (\<open>@h\<close> after a flag)
  or in the form \<open>F=@h\<close>. If resolving \<open>h\<close> gives the empty key list (so \<open>h\<close> is a valid
  handle), the loop stops there, \<open>run\<close> returns the error
  \<open>no keys found for github user %q\<close> of \<open>h\<close>, \<open>main\<close> writes that message and exits with
  status 1, and the external tool is not started: no exec event was added to the trace.
\<close>

theorem no_keys_aborts:
  assumes "lookPath w ''age'' = Inr ageBin"
    and "w0 = emit EvUserCacheDir (emit (EvLookPath ''age'') w)"
    and "c = cache_of L (userCacheDir w)"
    and "i < length args"
    and "(at_after_flag args i \<and> h = drop 1 (args ! i)) \<or>
         (\<exists>F \<in> set recipient_flags. args ! i = F @ ''=@'' @ h)"
    and "run_loop L c (take i args) 0 [ageBin] w0 = (Inr pre, w1)"
    and "fetchGithubKeys L h c w1 = (Inr [], w2)"
  shows "run_loop L c args 0 [ageBin] w0 = (Inl (NoKeysFound h), w2) \<and>
         run L args w = (Returns (NoKeysFound h), w2) \<and>
         main L args w =
           (Exit 1, w2\<lparr>stderr := stderr w2 @ ''no keys found for github user '' @ quote L h @
                                   [CHR 0x0A]\<rparr>) \<and>
         filter is_exec (trace w2) = filter is_exec (trace w) \<and>
         handle_grammar h"
proof -
  have g: "handle_grammar h"
    using assms(7) unfolding validGithubHandle_iff_grammar [symmetric]
    by (auto simp: fetchGithubKeys_def split: if_splits)
  have b: "loop_body L c args i w1 = (Inl (NoKeysFound h), w2)"
    using assms(5)
  proof
    assume a: "at_after_flag args i \<and> h = drop 1 (args ! i)"
    then show ?thesis
      using assms(7) by (simp add: loop_body_at_after_flag)
  next
    assume "\<exists>F \<in> set recipient_flags. args ! i = F @ ''=@'' @ h"
    then obtain F where F: "F \<in> set recipient_flags"
      and v: "args ! i = F @ ''='' @ (CHR ''@'' # h)"
      by auto
    have "starts_with_at (CHR ''@'' # h)" by (simp add: starts_with_at_def)
    then show ?thesis
      unfolding loop_body_flag_eq [OF v F] using assms(7) by simp
  qed
  from assms(4) have le: "i \<le> length args" by simp
  have "run_loop L c args 0 [ageBin] w0 = run_loop L c args i pre w1"
    using run_loop_prefix [OF _ le, of 0 L c "[ageBin]" w0] assms(6) by simp
  also have "\<dots> = (Inl (NoKeysFound h), w2)"
    by (simp add: run_loop_step [OF assms(4)] b)
  finally have r: "run_loop L c args 0 [ageBin] w0 = (Inl (NoKeysFound h), w2)" .
  from assms(4) have ne: "length args \<noteq> 0" by auto
  have u: "run L args w = (Returns (NoKeysFound h), w2)"
    using ne r assms(1,2,3)
    by (simp add: run_def exec_LookPath_def os_UserCacheDir_def emit_def)
  have m: "main L args w =
           (Exit 1, w2\<lparr>stderr := stderr w2 @ ''no keys found for github user '' @ quote L h @
                                   [CHR 0x0A]\<rparr>)"
    by (simp add: main_def u)
  have "filter is_exec (trace (snd (run_loop L c args 0 [ageBin] w0))) = filter is_exec (trace w0)"
    by (rule run_loop_no_exec)
  then have "filter is_exec (trace w2) = filter is_exec (trace w0)"
    by (simp add: r)
  then have t: "filter is_exec (trace w2) = filter is_exec (trace w)"
    by (simp add: assms(2) emit_def is_exec_def)
  from r u m t g show ?thesis by simp
qed

text \<open>
  C9. Frame property. For a vector that is not empty and has no \<open>@\<close>-prefixed recipient
  value (no token that starts with \<open>@\<close> after a flag, no token \<open>F=@...\<close>), once the binary
  is found \<open>run\<close> goes straight to \<open>syscall.Exec\<close> with the vector unchanged behind the
  path of the binary; the cache and the network are not touched (the trace has the lookup
  of the binary, of the cache directory, and the exec). And whenever \<open>run\<close> ends in the
  external tool, for any vector, the first token it was given is the path that
  \<open>exec.LookPath\<close> returned.
\<close>

theorem rewrite_frame:
  "(args \<noteq> [] \<and> no_placeholders args \<and> lookPath w ''age'' = Inr ageBin \<longrightarrow>
      run L args w =
        syscall_Exec ageBin (ageBin # args) (environ w)
          (emit EvUserCacheDir (emit (EvLookPath ''age'') w)) \<and>
      fst (run L args w) =
        (case exec_error w of
           None \<Rightarrow> Replaced ageBin (ageBin # args) (environ w)
         | Some err \<Rightarrow> Returns err) \<and>
      trace (snd (run L args w)) =
        trace w @ [EvLookPath ''age'', EvUserCacheDir, EvExec ageBin (ageBin # args) (environ w)]) \<and>
   (run L args w = (Replaced b argv envv, w') \<longrightarrow>
      lookPath w ''age'' = Inr b \<and> argv \<noteq> [] \<and> hd argv = b)"
proof (intro conjI impI)
  assume a: "args \<noteq> [] \<and> no_placeholders args \<and> lookPath w ''age'' = Inr ageBin"
  then show r: "run L args w =
        syscall_Exec ageBin (ageBin # args) (environ w)
          (emit EvUserCacheDir (emit (EvLookPath ''age'') w))"
    by (simp add: run_def exec_LookPath_def os_UserCacheDir_def run_loop_no_placeholders emit_def)
  show "fst (run L args w) =
        (case exec_error w of
           None \<Rightarrow> Replaced ageBin (ageBin # args) (environ w)
         | Some err \<Rightarrow> Returns err)"
    unfolding r by (simp add: syscall_Exec_def emit_def split: option.splits)
  show "trace (snd (run L args w)) =
        trace w @ [EvLookPath ''age'', EvUserCacheDir, EvExec ageBin (ageBin # args) (environ w)]"
    unfolding r by (simp add: syscall_Exec_def emit_def split: option.splits)
next
  assume r: "run L args w = (Replaced b argv envv, w')"
  then obtain c w2 w3 where l: "run_loop L c args 0 [b] w2 = (Inr argv, w3)"
    and p: "lookPath w ''age'' = Inr b"
    by (auto simp: run_def exec_LookPath_def os_UserCacheDir_def syscall_Exec_def Let_def
             split: if_splits prod.splits sum.splits option.splits)
  from l obtain rest where "argv = [b] @ rest"
    by (subst (asm) run_loop_acc) (auto split: prod.splits sum.splits)
  with p show "lookPath w ''age'' = Inr b" "argv \<noteq> []" "hd argv = b"
    by simp_all
qed

section \<open>The rewriter on concrete vectors\<close>

lemmas eval_defs =
  loop_body_def fetchGithubKeys_def cacheDir_get_def cacheDir_put_def os_defs http_Do_def
  validGithubHandle_def MatchString_def userNameRe_def in_class_def HasPrefix_def
  isRecipientFlag_def parseReaderToKeys_def parseReaderToKeys_rd_def Scanner_def
  bytes_NewReader_def io_LimitReader_def scan_tokens.simps dropCR_def MaxScanTokenSize_def
  Let_def L0_def W0_def net0_def keys_alice_def bin0_def cache0_def

text \<open>
  The first scenario of the specification: \<open>-r @alice file.txt\<close>, position 1.
\<close>

theorem rewrite_in_place_witness:
  "fst (run_loop L0 cache0 args_two_token 0 [bin0] W0) =
     Inr [bin0, ''-r'', ''ssh-ed25519 AAA'', ''file.txt''] \<and>
   at_after_flag args_two_token 1 \<and>
   (\<exists>pre w1 w2 post keys.
      run_loop L0 cache0 (take 1 args_two_token) 0 [bin0] W0 = (Inr pre, w1) \<and>
      fetchGithubKeys L0 (drop 1 (args_two_token ! 1)) cache0 w1 = (Inr keys, w2) \<and>
      keys \<noteq> [] \<and>
      [bin0, ''-r'', ''ssh-ed25519 AAA'', ''file.txt''] = pre @ [hd keys] @ post)"
proof -
  let ?out = "[bin0, ''-r'', ''ssh-ed25519 AAA'', ''file.txt'']"
  have f: "fst (run_loop L0 cache0 args_two_token 0 [bin0] W0) = Inr ?out"
    by (simp add: run_loop.simps eval_defs args_two_token_def)
  have h1: "run_loop L0 cache0 args_two_token 0 [bin0] W0 =
              (Inr ?out, snd (run_loop L0 cache0 args_two_token 0 [bin0] W0))"
    by (simp add: prod_eq_iff f)
  have h2: "1 < length args_two_token"
    by (simp add: args_two_token_def)
  have a: "at_after_flag args_two_token 1"
    by (simp add: at_after_flag_def starts_with_at_def recipient_flags_def args_two_token_def)
  from rewrite_in_place [OF h1 h2] a
  have "\<exists>pre w1 w2 post keys.
      run_loop L0 cache0 (take 1 args_two_token) 0 [bin0] W0 = (Inr pre, w1) \<and>
      fetchGithubKeys L0 (drop 1 (args_two_token ! 1)) cache0 w1 = (Inr keys, w2) \<and>
      keys \<noteq> [] \<and> ?out = pre @ [hd keys] @ post"
    by blast
  with f a show ?thesis by simp
qed

text \<open>The second scenario: \<open>--recipient=@alice f\<close>, position 0.\<close>

theorem rewrite_flag_eq_value_witness:
  "fst (run_loop L0 cache0 args_flag_eq 0 [bin0] W0) =
     Inr [bin0, ''-r'', ''ssh-ed25519 AAA'', ''f''] \<and>
   (\<exists>pre w1 w2 post keys.
      run_loop L0 cache0 (take 0 args_flag_eq) 0 [bin0] W0 = (Inr pre, w1) \<and>
      fetchGithubKeys L0 (drop 1 ''@alice'') cache0 w1 = (Inr keys, w2) \<and>
      keys \<noteq> [] \<and>
      [bin0, ''-r'', ''ssh-ed25519 AAA'', ''f''] = pre @ [''-r'', hd keys] @ post) \<and>
   length [bin0, ''-r'', ''ssh-ed25519 AAA'', ''f''] =
     length [bin0] + length args_flag_eq + length (filter flag_eq_at args_flag_eq)"
proof -
  let ?out = "[bin0, ''-r'', ''ssh-ed25519 AAA'', ''f'']"
  have f: "fst (run_loop L0 cache0 args_flag_eq 0 [bin0] W0) = Inr ?out"
    by (simp add: run_loop.simps eval_defs args_flag_eq_def)
  have h1: "run_loop L0 cache0 args_flag_eq 0 [bin0] W0 =
              (Inr ?out, snd (run_loop L0 cache0 args_flag_eq 0 [bin0] W0))"
    by (simp add: prod_eq_iff f)
  have h2: "0 < length args_flag_eq"
    by (simp add: args_flag_eq_def)
  have h3: "args_flag_eq ! 0 = ''--recipient'' @ ''='' @ ''@alice''"
    by (simp add: args_flag_eq_def)
  have h4: "''--recipient'' \<in> set recipient_flags"
    by (simp add: recipient_flags_def)
  have s: "starts_with_at ''@alice''"
    by (simp add: starts_with_at_def)
  from rewrite_flag_eq_value [OF h1 h2 h3 h4] s
  have "(\<exists>pre w1 w2 post keys.
      run_loop L0 cache0 (take 0 args_flag_eq) 0 [bin0] W0 = (Inr pre, w1) \<and>
      fetchGithubKeys L0 (drop 1 ''@alice'') cache0 w1 = (Inr keys, w2) \<and>
      keys \<noteq> [] \<and> ?out = pre @ [''-r'', hd keys] @ post) \<and>
     length ?out = length [bin0] + length args_flag_eq + length (filter flag_eq_at args_flag_eq)"
    by blast
  with f show ?thesis by simp
qed

text \<open>A handle with no keys, in both forms.\<close>

theorem no_keys_aborts_witness:
  "fst (run L0 args_nobody W0) = Returns (NoKeysFound ''nobody'') \<and>
   fst (main L0 args_nobody W0) = Exit 1 \<and>
   stderr (snd (main L0 args_nobody W0)) =
     ''no keys found for github user '' @ [CHR 0x22] @ ''nobody'' @ [CHR 0x22] @ [CHR 0x0A] \<and>
   filter is_exec (trace (snd (run L0 args_nobody W0))) = [] \<and>
   fst (run L0 args_nobody_eq W0) = Returns (NoKeysFound ''nobody'') \<and>
   filter is_exec (trace (snd (run L0 args_nobody_eq W0))) = []"
proof -
  let ?w0 = "emit EvUserCacheDir (emit (EvLookPath ''age'') W0)"
  let ?c = "cache_of L0 (userCacheDir W0)"
  let ?w2 = "snd (fetchGithubKeys L0 ''nobody'' ?c ?w0)"
  have lp: "lookPath W0 ''age'' = Inr bin0"
    by (simp add: W0_def bin0_def)
  have ff: "fst (fetchGithubKeys L0 ''nobody'' ?c ?w0) = Inr []"
    by (simp add: eval_defs cache_of_def)
  have fe: "fetchGithubKeys L0 ''nobody'' ?c ?w0 = (Inr [], ?w2)"
    by (simp add: prod_eq_iff ff)
  have tr: "filter is_exec (trace W0) = []" and er: "stderr ?w2 = []"
    by (simp_all add: eval_defs cache_of_def)
  have q: "quote L0 ''nobody'' = [CHR 0x22] @ ''nobody'' @ [CHR 0x22]"
    by (simp add: L0_def)
  have a1: "3 < length args_nobody"
    by (simp add: args_nobody_def)
  have a2: "(at_after_flag args_nobody 3 \<and> ''nobody'' = drop 1 (args_nobody ! 3)) \<or>
            (\<exists>F \<in> set recipient_flags. args_nobody ! 3 = F @ ''=@'' @ ''nobody'')"
    by (simp add: at_after_flag_def starts_with_at_def recipient_flags_def args_nobody_def)
  have a3: "run_loop L0 ?c (take 3 args_nobody) 0 [bin0] ?w0 = (Inr [bin0, ''-o'', ''out'', ''-r''], ?w0)"
    by (simp add: run_loop.simps eval_defs args_nobody_def)
  note A = no_keys_aborts [OF lp refl refl a1 a2 a3 fe]
  have b1: "0 < length args_nobody_eq"
    by (simp add: args_nobody_eq_def)
  have b2: "(at_after_flag args_nobody_eq 0 \<and> ''nobody'' = drop 1 (args_nobody_eq ! 0)) \<or>
            (\<exists>F \<in> set recipient_flags. args_nobody_eq ! 0 = F @ ''=@'' @ ''nobody'')"
    by (simp add: recipient_flags_def args_nobody_eq_def)
  have b3: "run_loop L0 ?c (take 0 args_nobody_eq) 0 [bin0] ?w0 = (Inr [bin0], ?w0)"
    by (simp add: run_loop.simps)
  note B = no_keys_aborts [OF lp refl refl b1 b2 b3 fe]
  from A B tr er q show ?thesis
    by simp
qed

text \<open>
  A vector with an \<open>@\<close> token at position 0, one after a token that is no flag, a flag
  with a key, and two \<open>=\<close> tokens that are not \<open>F=@...\<close>.
\<close>

theorem rewrite_frame_witness:
  "no_placeholders args_plain \<and>
   fst (run L0 args_plain W0) = Replaced bin0 (bin0 # args_plain) [''HOME=/home/u''] \<and>
   trace (snd (run L0 args_plain W0)) =
     [EvLookPath ''age'', EvUserCacheDir, EvExec bin0 (bin0 # args_plain) [''HOME=/home/u'']] \<and>
   lookPath W0 ''age'' = Inr bin0 \<and> hd (bin0 # args_plain) = bin0"
proof -
  have n: "no_placeholders args_plain"
    by (simp add: no_placeholders_def at_after_flag_def flag_eq_at_def starts_with_at_def
        recipient_flags_def args_plain_def)
  have h: "args_plain \<noteq> [] \<and> no_placeholders args_plain \<and> lookPath W0 ''age'' = Inr bin0"
    using n by (simp add: args_plain_def W0_def bin0_def)
  have e: "exec_error W0 = None" "environ W0 = [''HOME=/home/u'']" "trace W0 = []"
    by (simp_all add: W0_def)
  note F = rewrite_frame [of args_plain W0 bin0 L0, THEN conjunct1, rule_format, OF h]
  have f1: "fst (run L0 args_plain W0) = Replaced bin0 (bin0 # args_plain) [''HOME=/home/u'']"
    using F [THEN conjunct2, THEN conjunct1] by (simp add: e)
  have f2: "trace (snd (run L0 args_plain W0)) =
     [EvLookPath ''age'', EvUserCacheDir, EvExec bin0 (bin0 # args_plain) [''HOME=/home/u'']]"
    using F [THEN conjunct2, THEN conjunct2] by (simp add: e)
  have r: "run L0 args_plain W0 =
             (Replaced bin0 (bin0 # args_plain) [''HOME=/home/u''], snd (run L0 args_plain W0))"
    by (simp add: prod_eq_iff f1)
  note G = rewrite_frame [of args_plain W0 bin0 L0 bin0 "bin0 # args_plain" "[''HOME=/home/u'']"
      "snd (run L0 args_plain W0)", THEN conjunct2, rule_format, OF r]
  from n f1 f2 G show ?thesis
    by simp
qed

end
